theory Spec2Isabelle
  imports Main
begin

section \<open>The block reader of demux-js (src/AbstractActionReader.ts)\<close>

text \<open>
  The class \<open>AbstractActionReader\<close> is embedded as a record of its fields and one
  function per method. A method takes the reader and the state of the outside world and
  returns its outcome together with the reader and the world as the method left them:
  a JavaScript exception keeps every assignment made before it, so the reader is returned
  on the error branch as well. Numbers are integers, hashes are strings.
\<close>

subsection \<open>Data\<close>

record BlockInfo =
  blockNumber :: int
  blockHash :: string
  previousBlockHash :: string

text \<open>
  Modelled from the spec: the interface \<open>Block\<close> of \<open>./interfaces\<close> is not among the
  sources. The reader only ever reads \<open>blockInfo\<close>; the rest of a block is an opaque
  payload that is passed through.
\<close>

record Block =
  blockInfo :: BlockInfo
  payload :: string

text \<open>One constructor per \<open>console.info\<close> line of the source, with the values it prints.\<close>

datatype notice =
    ForkDetected
  | MismatchHeader
  | MatchHeader
  | NewBlockLine int string
  | OldBlockMatches int string
  | OldBlockDiffers int string
  | Refetching int
  | ForkResolved
  | HistoryExhaustedNotice

datatype error =
    AdapterError string
  | CurrentBlockDataNull
  | SeekBeforeStart
  | ResolveForkNull
  | HistoryExhaustedError
  | TypeError string

record reader =
  headBlockNumber :: int
  currentBlockNumber :: int
  isFirstBlock :: bool
  currentBlockData :: "Block option"
  blockHistory :: "Block list"
  startAtBlock :: int
  onlyIrreversible :: bool
  maxHistoryLength :: int
  console :: "notice list"

text \<open>
  The methods a concrete subclass supplies. The two abstract ones act on the world
  \<open>'w\<close> and may fail with an error message of their own; \<open>historyExhausted\<close> is a
  method of the class, so an override sees the reader too.
\<close>

record 'w adapter =
  getHeadBlockNumber :: "'w \<Rightarrow> (string + int) \<times> 'w"
  getBlock :: "int \<Rightarrow> 'w \<Rightarrow> (string + Block) \<times> 'w"
  historyExhausted :: "reader \<Rightarrow> 'w \<Rightarrow> (error + unit) \<times> reader \<times> 'w"

type_synonym ('a, 'w) outcome = "(error + 'a) \<times> reader \<times> 'w"

subsection \<open>Construction\<close>

definition AbstractActionReader :: "int \<Rightarrow> bool \<Rightarrow> int \<Rightarrow> reader" where
  "AbstractActionReader start irreversible maxLen =
     \<lparr> headBlockNumber = 0,
       currentBlockNumber = start - 1,
       isFirstBlock = True,
       currentBlockData = None,
       blockHistory = [],
       startAtBlock = start,
       onlyIrreversible = irreversible,
       maxHistoryLength = maxLen,
       console = [] \<rparr>"

definition info :: "notice list \<Rightarrow> reader \<Rightarrow> reader" where
  "info ns s = s\<lparr>console := console s @ ns\<rparr>"

subsection \<open>Array primitives\<close>

text \<open>
  \<open>xs.splice(0, deleteCount)\<close>: the count is clamped to \<open>0 .. length\<close> and that many
  elements are removed from the front.
\<close>

definition spliceFront :: "int \<Rightarrow> 'a list \<Rightarrow> 'a list" where
  "spliceFront deleteCount xs = drop (nat (min (max deleteCount 0) (int (length xs)))) xs"

text \<open>\<open>xs.splice(start)\<close> for \<open>start \<ge> 0\<close>: everything from index \<open>start\<close> on is removed.\<close>

definition spliceFrom :: "int \<Rightarrow> 'a list \<Rightarrow> 'a list" where
  "spliceFrom start xs = take (nat (min start (int (length xs)))) xs"

text \<open>\<open>xs.pop() || null\<close>: the removed last element (none on an empty array) and the rest.\<close>

definition pop :: "'a list \<Rightarrow> 'a option \<times> 'a list" where
  "pop xs = (if xs = [] then (None, []) else (Some (last xs), butlast xs))"

subsection \<open>historyExhausted\<close>

definition historyExhausted_default :: "reader \<Rightarrow> 'w \<Rightarrow> (unit, 'w) outcome" where
  "historyExhausted_default s w = (Inl HistoryExhaustedError, info [HistoryExhaustedNotice] s, w)"

subsection \<open>resolveFork\<close>

text \<open>
  The \<open>while\<close> loop of \<open>resolveFork\<close>. The test \<open>currentBlockData !== null\<close> after the
  refetch is always true (\<open>getBlock\<close> returns a \<open>Block\<close>), and a failed \<open>getBlock\<close>
  throws before the assignment.
\<close>

function resolveForkLoop :: "'w adapter \<Rightarrow> reader \<Rightarrow> 'w \<Rightarrow> (unit, 'w) outcome" where
  "resolveForkLoop A s w =
     (if blockHistory s = [] then (Inr (), s, w)
      else
        (case currentBlockData s of
           None \<Rightarrow> (Inl (TypeError ''blockInfo of null''), s, w)
         | Some c \<Rightarrow>
             (case getBlock A (blockNumber (blockInfo c)) w of
                (Inl e, w') \<Rightarrow>
                  (Inl (AdapterError e), info [Refetching (blockNumber (blockInfo c))] s, w')
              | (Inr r, w') \<Rightarrow>
                  (if previousBlockHash (blockInfo r) = blockHash (blockInfo (last (blockHistory s)))
                   then
                     (Inr (),
                      info [Refetching (blockNumber (blockInfo c)),
                            MatchHeader,
                            NewBlockLine (blockNumber (blockInfo r)) (previousBlockHash (blockInfo r)),
                            OldBlockMatches (blockNumber (blockInfo (last (blockHistory s))))
                                            (blockHash (blockInfo (last (blockHistory s)))),
                            ForkResolved]
                        (s\<lparr>currentBlockData := Some r\<rparr>),
                      w')
                   else
                     resolveForkLoop A
                       (info [Refetching (blockNumber (blockInfo c)),
                              MismatchHeader,
                              NewBlockLine (blockNumber (blockInfo r)) (previousBlockHash (blockInfo r)),
                              OldBlockDiffers (blockNumber (blockInfo (last (blockHistory s))))
                                              (blockHash (blockInfo (last (blockHistory s))))]
                          (s\<lparr>currentBlockData := Some (last (blockHistory s)),
                             blockHistory := butlast (blockHistory s)\<rparr>))
                       w'))))"
  by pat_completeness auto
termination
  by (relation "measure (\<lambda>(A, s, w). length (blockHistory s))") (auto simp: info_def)

declare resolveForkLoop.simps [simp del]

text \<open>
  The last statement of \<open>resolveFork\<close>: reading \<open>blockInfo\<close> of the newest history
  entry. On an empty array the index is \<open>-1\<close>, the element is \<open>undefined\<close> and the read
  throws a TypeError.
\<close>

definition resumeAfterNewest :: "reader \<Rightarrow> 'w \<Rightarrow> (unit, 'w) outcome" where
  "resumeAfterNewest s w =
     (if blockHistory s = [] then (Inl (TypeError ''blockInfo of undefined''), s, w)
      else (Inr (), s\<lparr>currentBlockNumber := blockNumber (blockInfo (last (blockHistory s))) + 1\<rparr>, w))"

definition resolveFork :: "'w adapter \<Rightarrow> reader \<Rightarrow> 'w \<Rightarrow> (unit, 'w) outcome" where
  "resolveFork A s w =
     (if currentBlockData s = None then (Inl ResolveForkNull, s, w)
      else
        (case resolveForkLoop A s w of
           (Inl e, s1, w1) \<Rightarrow> (Inl e, s1, w1)
         | (Inr u, s1, w1) \<Rightarrow>
             (if blockHistory s1 = []
              then
                (case historyExhausted A s1 w1 of
                   (Inl e, s2, w2) \<Rightarrow> (Inl e, s2, w2)
                 | (Inr u', s2, w2) \<Rightarrow> resumeAfterNewest s2 w2)
              else resumeAfterNewest s1 w1)))"

subsection \<open>nextBlock\<close>

text \<open>If we are on the head block (or the head is unknown), refresh the head.\<close>

definition refreshHead :: "'w adapter \<Rightarrow> reader \<Rightarrow> 'w \<Rightarrow> (unit, 'w) outcome" where
  "refreshHead A s w =
     (if currentBlockNumber s = headBlockNumber s \<or> headBlockNumber s = 0
      then
        (case getHeadBlockNumber A w of
           (Inl e, w') \<Rightarrow> (Inl (AdapterError e), s, w')
         | (Inr h, w') \<Rightarrow> (Inr (), s\<lparr>headBlockNumber := h\<rparr>, w'))
      else (Inr (), s, w))"

text \<open>A negative current block number with no history wraps to the end of the chain.\<close>

definition wrapNegative :: "reader \<Rightarrow> reader" where
  "wrapNegative s =
     (if currentBlockNumber s < 0 \<and> blockHistory s = []
      then s\<lparr>currentBlockNumber := headBlockNumber s + currentBlockNumber s,
             startAtBlock := headBlockNumber s + currentBlockNumber s + 1\<rparr>
      else s)"

definition expectedHash :: "reader \<Rightarrow> string" where
  "expectedHash s =
     (case currentBlockData s of Some c \<Rightarrow> blockHash (blockInfo c) | None \<Rightarrow> ''INVALID'')"

text \<open>\<open>if (currentBlockData) blockHistory.push(currentBlockData)\<close>: the history after it.\<close>

definition pushCurrent :: "reader \<Rightarrow> Block list" where
  "pushCurrent s =
     (case currentBlockData s of
        Some c \<Rightarrow> blockHistory s @ [c]
      | None \<Rightarrow> blockHistory s)"

text \<open>The validated branch: the old current block goes on the history, which is trimmed.\<close>

definition commitBlock :: "Block \<Rightarrow> reader \<Rightarrow> reader" where
  "commitBlock b s =
     (let pushed = pushCurrent s
      in s\<lparr>blockHistory := spliceFront (int (length pushed) - maxHistoryLength s) pushed,
           currentBlockData := Some b,
           currentBlockNumber := blockNumber (blockInfo b)\<rparr>)"

text \<open>
  The body of \<open>if (currentBlockNumber < headBlockNumber)\<close>; the result carries
  \<open>(isRollback, isNewBlock)\<close>.
\<close>

definition processBehind :: "'w adapter \<Rightarrow> reader \<Rightarrow> 'w \<Rightarrow> (bool \<times> bool, 'w) outcome" where
  "processBehind A s w =
     (if currentBlockNumber s < headBlockNumber s
      then
        (case getBlock A (currentBlockNumber s + 1) w of
           (Inl e, w1) \<Rightarrow> (Inl (AdapterError e), s, w1)
         | (Inr unvalidated, w1) \<Rightarrow>
             (if expectedHash s = previousBlockHash (blockInfo unvalidated) \<or> blockHistory s = []
              then (Inr (False, True), commitBlock unvalidated s, w1)
              else
                (case resolveFork A
                        (info [ForkDetected,
                               MismatchHeader,
                               NewBlockLine (blockNumber (blockInfo unvalidated))
                                            (previousBlockHash (blockInfo unvalidated)),
                               OldBlockDiffers (currentBlockNumber s) (expectedHash s)] s)
                        w1 of
                   (Inl e, s2, w2) \<Rightarrow> (Inl e, s2, w2)
                 | (Inr u, s2, w2) \<Rightarrow>
                     (case getHeadBlockNumber A w2 of
                        (Inl e, w3) \<Rightarrow> (Inl (AdapterError e), s2, w3)
                      | (Inr h, w3) \<Rightarrow> (Inr (True, True), s2\<lparr>headBlockNumber := h\<rparr>, w3)))))
      else (Inr (False, False), s, w))"

text \<open>The end of \<open>nextBlock\<close>: set \<open>isFirstBlock\<close>, refuse a missing current block, return.\<close>

definition finish :: "bool \<times> bool \<Rightarrow> reader \<Rightarrow> 'w \<Rightarrow> (Block \<times> bool \<times> bool, 'w) outcome" where
  "finish flags s w =
     (let s' = s\<lparr>isFirstBlock := (currentBlockNumber s = startAtBlock s)\<rparr>
      in case currentBlockData s' of
           None \<Rightarrow> (Inl CurrentBlockDataNull, s', w)
         | Some b \<Rightarrow> (Inr (b, fst flags, snd flags), s', w))"

definition nextBlock :: "'w adapter \<Rightarrow> reader \<Rightarrow> 'w \<Rightarrow> (Block \<times> bool \<times> bool, 'w) outcome" where
  "nextBlock A s w =
     (case refreshHead A s w of
        (Inl e, s1, w1) \<Rightarrow> (Inl e, s1, w1)
      | (Inr u, s1, w1) \<Rightarrow>
          (case processBehind A (wrapNegative s1) w1 of
             (Inl e, s2, w2) \<Rightarrow> (Inl e, s2, w2)
           | (Inr flags, s2, w2) \<Rightarrow> finish flags s2 w2))"

subsection \<open>seekToBlock\<close>

text \<open>
  The scan \<open>for (i = length - 1; i >= 0; i--)\<close>: the second argument is \<open>i + 1\<close>, the
  third the running value of \<open>toDelete\<close>.
\<close>

fun scanHistory :: "Block list \<Rightarrow> int \<Rightarrow> nat \<Rightarrow> int \<Rightarrow> int" where
  "scanHistory h target 0 toDelete = toDelete"
| "scanHistory h target (Suc i) toDelete =
     (if blockNumber (blockInfo (h ! i)) = target then toDelete
      else scanHistory h target i (toDelete + 1))"

definition reuseHistory :: "int \<Rightarrow> reader \<Rightarrow> reader" where
  "reuseHistory target s =
     (let toDelete = scanHistory (blockHistory s) target (length (blockHistory s)) (- 1)
      in if toDelete \<ge> 0
         then (let (top, rest) = pop (spliceFrom toDelete (blockHistory s))
               in s\<lparr>blockHistory := rest, currentBlockData := top\<rparr>)
         else s)"

definition seekToBlock :: "'w adapter \<Rightarrow> int \<Rightarrow> reader \<Rightarrow> 'w \<Rightarrow> (unit, 'w) outcome" where
  "seekToBlock A target s w =
     (let s0 = s\<lparr>currentBlockData := None, headBlockNumber := 0\<rparr>
      in if target < startAtBlock s0 then (Inl SeekBeforeStart, s0, w)
         else if target = 1
         then (Inr (), s0\<lparr>blockHistory := [], currentBlockNumber := 0\<rparr>, w)
         else
           (let s1 = (reuseHistory target s0)\<lparr>currentBlockNumber := target - 1\<rparr>
            in case currentBlockData s1 of
                 Some c \<Rightarrow> (Inr (), s1, w)
               | None \<Rightarrow>
                   (case getBlock A (currentBlockNumber s1) w of
                      (Inl e, w') \<Rightarrow> (Inl (AdapterError e), s1, w')
                    | (Inr b, w') \<Rightarrow> (Inr (), s1\<lparr>currentBlockData := Some b\<rparr>, w'))))"

subsection \<open>Runs and a test chain\<close>

text \<open>A caller that invokes \<open>nextBlock\<close> \<open>n\<close> times, whatever each call returns.\<close>

fun nextBlocks :: "'w adapter \<Rightarrow> nat \<Rightarrow> reader \<Rightarrow> 'w \<Rightarrow> reader \<times> 'w" where
  "nextBlocks A 0 s w = (s, w)"
| "nextBlocks A (Suc n) s w =
     nextBlocks A n (fst (snd (nextBlock A s w))) (snd (snd (nextBlock A s w)))"

text \<open>
  A chain for concrete runs. The world holds the number of leading blocks that the chain
  shares with the original branch: block \<open>n\<close> is on branch \<open>a\<close> up to \<open>shared\<close> and on
  branch \<open>b\<close> after it, and its hash is \<open>n\<close> copies of the branch letter. Lowering
  \<open>shared\<close> is a reorganisation. \<open>calls\<close> counts the requests made to the adapter.
\<close>

record chain =
  shared :: int
  calls :: nat

definition chainBlock :: "int \<Rightarrow> int \<Rightarrow> Block" where
  "chainBlock k n =
     \<lparr> blockInfo =
         \<lparr> blockNumber = n,
           blockHash = replicate (nat n) (if n \<le> k then CHR ''a'' else CHR ''b''),
           previousBlockHash =
             replicate (nat (n - 1)) (if n - 1 \<le> k then CHR ''a'' else CHR ''b'') \<rparr>,
       payload = [] \<rparr>"

definition chainAdapter :: "int \<Rightarrow> chain adapter" where
  "chainAdapter h =
     \<lparr> getHeadBlockNumber = (\<lambda>w. (Inr h, w\<lparr>calls := Suc (calls w)\<rparr>)),
       getBlock = (\<lambda>n w. (Inr (chainBlock (shared w) n), w\<lparr>calls := Suc (calls w)\<rparr>)),
       historyExhausted = historyExhausted_default \<rparr>"

definition world0 :: chain where
  "world0 = \<lparr> shared = 1000, calls = 0 \<rparr>"

text \<open>
  The reader that was built with \<open>startAtBlock = 1\<close> and has made \<open>n\<close> calls on the
  unforked chain with head \<open>h\<close>.
\<close>

definition tracking :: "int \<Rightarrow> int \<Rightarrow> nat \<Rightarrow> reader" where
  "tracking h maxLen n =
     fst (nextBlocks (chainAdapter h) n (AbstractActionReader 1 False maxLen) world0)"

text \<open>A subclass whose \<open>historyExhausted\<close> returns instead of throwing.\<close>

definition lenientAdapter :: "int \<Rightarrow> chain adapter" where
  "lenientAdapter h = (chainAdapter h)\<lparr>historyExhausted := (\<lambda>s w. (Inr (), s, w))\<rparr>"

text \<open>
  \<open>n\<close> calls of \<open>nextBlock\<close> that all commit a block (\<open>isNewBlock\<close> and not
  \<open>isRollback\<close>); no result when one of them does anything else.
\<close>

fun commits :: "'w adapter \<Rightarrow> nat \<Rightarrow> reader \<Rightarrow> 'w \<Rightarrow> (reader \<times> 'w) option" where
  "commits A 0 s w = Some (s, w)"
| "commits A (Suc n) s w =
     (case nextBlock A s w of
        (Inl e, s', w') \<Rightarrow> None
      | (Inr (b, isRollback, isNewBlock), s', w') \<Rightarrow>
          (if isNewBlock \<and> \<not> isRollback then commits A n s' w' else None))"

text \<open>
  The invariant behind \<open>isFirstBlock\<close>: \<open>startAtBlock\<close> is \<open>L\<close>, no block held is
  older than \<open>L\<close>, and the reader is past block \<open>L\<close>, or at \<open>L\<close> with an empty history
  and a known head beyond it.
\<close>

definition pastStart :: "int \<Rightarrow> reader \<Rightarrow> bool" where
  "pastStart L s =
     (startAtBlock s = L \<and> 0 \<le> L
      \<and> list_all (\<lambda>x. L \<le> blockNumber (blockInfo x)) (blockHistory s)
      \<and> (case currentBlockData s of None \<Rightarrow> True | Some c \<Rightarrow> L \<le> blockNumber (blockInfo c))
      \<and> (L < currentBlockNumber s
         \<or> (currentBlockNumber s = L \<and> L < headBlockNumber s \<and> blockHistory s = [])))"

section \<open>Properties\<close>

subsection \<open>seekToBlock before startAtBlock\<close>

text \<open>
  C5 on the code. \<open>seekToBlock\<close> clears \<open>currentBlockData\<close> and \<open>headBlockNumber\<close>
  on its first two lines and checks the target only after that. The reader has committed
  blocks 1 to 3 (history 1 and 2, current block 3). \<open>seekToBlock(0)\<close> is refused with
  the invalid-argument error and without a call to the adapter, and
  \<open>currentBlockNumber\<close> and \<open>blockHistory\<close> are as before, but the current block is
  gone and the head is 0. The reader now holds a history without a current block, a
  state that the constructor, the branch for block 1 and the commit guard of
  \<open>nextBlock\<close> never produce: the next \<open>nextBlock\<close> compares block 4 with the
  sentinel hash, reports a fork on a chain that has none, and fails in \<open>resolveFork\<close>
  because \<open>currentBlockData\<close> is null.
\<close>

theorem seekToBlock_invalid_clears_current:
  "startAtBlock (tracking 10 600 3) = 1
   \<and> currentBlockData (tracking 10 600 3) = Some (chainBlock 1000 3)
   \<and> headBlockNumber (tracking 10 600 3) = 10
   \<and> seekToBlock (chainAdapter 10) 0 (tracking 10 600 3) world0 =
       (Inl SeekBeforeStart,
        (tracking 10 600 3)\<lparr>currentBlockData := None, headBlockNumber := 0\<rparr>,
        world0)
   \<and> currentBlockNumber (fst (snd (seekToBlock (chainAdapter 10) 0 (tracking 10 600 3) world0))) = 3
   \<and> blockHistory (fst (snd (seekToBlock (chainAdapter 10) 0 (tracking 10 600 3) world0))) =
       [chainBlock 1000 1, chainBlock 1000 2]
   \<and> fst (nextBlock (chainAdapter 10)
            (fst (snd (seekToBlock (chainAdapter 10) 0 (tracking 10 600 3) world0)))
            world0) = Inl ResolveForkNull
   \<and> console (fst (snd (nextBlock (chainAdapter 10)
            (fst (snd (seekToBlock (chainAdapter 10) 0 (tracking 10 600 3) world0)))
            world0))) =
       [ForkDetected, MismatchHeader, NewBlockLine 4 ''aaa'', OldBlockDiffers 3 ''INVALID'']
   \<and> fst (nextBlock (chainAdapter 10) (tracking 10 600 3) world0) =
       Inr (chainBlock 1000 4, False, True)"
  by code_simp

subsection \<open>The rollback loop\<close>

text \<open>
  One rule for every property of the loop: the four ways an iteration ends the loop, and
  the iteration that pops the newest history entry and goes on.
\<close>

lemma loop_induct [consumes 1, case_names empty null fail match step]:
  assumes run: "resolveForkLoop A s w = (r, s', w')"
    and empty: "\<And>s w. blockHistory s = [] \<Longrightarrow> P s w (Inr ()) s w"
    and null: "\<And>s w. blockHistory s \<noteq> [] \<Longrightarrow> currentBlockData s = None \<Longrightarrow>
                 P s w (Inl (TypeError ''blockInfo of null'')) s w"
    and fail: "\<And>s w c e w1. blockHistory s \<noteq> [] \<Longrightarrow> currentBlockData s = Some c \<Longrightarrow>
                 getBlock A (blockNumber (blockInfo c)) w = (Inl e, w1) \<Longrightarrow>
                 P s w (Inl (AdapterError e)) (info [Refetching (blockNumber (blockInfo c))] s) w1"
    and match: "\<And>s w c b w1. blockHistory s \<noteq> [] \<Longrightarrow> currentBlockData s = Some c \<Longrightarrow>
                 getBlock A (blockNumber (blockInfo c)) w = (Inr b, w1) \<Longrightarrow>
                 previousBlockHash (blockInfo b) = blockHash (blockInfo (last (blockHistory s))) \<Longrightarrow>
                 P s w (Inr ())
                   (info [Refetching (blockNumber (blockInfo c)), MatchHeader,
                          NewBlockLine (blockNumber (blockInfo b)) (previousBlockHash (blockInfo b)),
                          OldBlockMatches (blockNumber (blockInfo (last (blockHistory s))))
                                          (blockHash (blockInfo (last (blockHistory s)))),
                          ForkResolved]
                      (s\<lparr>currentBlockData := Some b\<rparr>)) w1"
    and step: "\<And>s w c b w1 r s' w'. blockHistory s \<noteq> [] \<Longrightarrow> currentBlockData s = Some c \<Longrightarrow>
                 getBlock A (blockNumber (blockInfo c)) w = (Inr b, w1) \<Longrightarrow>
                 previousBlockHash (blockInfo b) \<noteq> blockHash (blockInfo (last (blockHistory s))) \<Longrightarrow>
                 P (info [Refetching (blockNumber (blockInfo c)), MismatchHeader,
                          NewBlockLine (blockNumber (blockInfo b)) (previousBlockHash (blockInfo b)),
                          OldBlockDiffers (blockNumber (blockInfo (last (blockHistory s))))
                                          (blockHash (blockInfo (last (blockHistory s))))]
                      (s\<lparr>currentBlockData := Some (last (blockHistory s)),
                         blockHistory := butlast (blockHistory s)\<rparr>)) w1 r s' w' \<Longrightarrow>
                 P s w r s' w'"
  shows "P s w r s' w'"
  using run
proof (induction "length (blockHistory s)" arbitrary: s w rule: less_induct)
  case less
  note prems = less.prems
  show ?case
  proof (cases "blockHistory s = []")
    case True
    have "r = Inr () \<and> s' = s \<and> w' = w"
      using prems True by (subst (asm) resolveForkLoop.simps) auto
    with empty[OF True] show ?thesis by simp
  next
    case ne: False
    show ?thesis
    proof (cases "currentBlockData s")
      case None
      have "r = Inl (TypeError ''blockInfo of null'') \<and> s' = s \<and> w' = w"
        using prems ne None by (subst (asm) resolveForkLoop.simps) auto
      with null[OF ne None] show ?thesis by simp
    next
      case (Some c)
      obtain x w1 where g: "getBlock A (blockNumber (blockInfo c)) w = (x, w1)"
        by (cases "getBlock A (blockNumber (blockInfo c)) w")
      show ?thesis
      proof (cases x)
        case (Inl e)
        have "r = Inl (AdapterError e) \<and> s' = info [Refetching (blockNumber (blockInfo c))] s \<and> w' = w1"
          using prems ne Some g Inl by (subst (asm) resolveForkLoop.simps) auto
        moreover have "P s w (Inl (AdapterError e)) (info [Refetching (blockNumber (blockInfo c))] s) w1"
          using g Inl by (intro fail[OF ne Some]) simp
        ultimately show ?thesis by simp
      next
        case (Inr b)
        show ?thesis
        proof (cases "previousBlockHash (blockInfo b) = blockHash (blockInfo (last (blockHistory s)))")
          case True
          have "r = Inr () \<and> w' = w1 \<and>
                s' = info [Refetching (blockNumber (blockInfo c)), MatchHeader,
                          NewBlockLine (blockNumber (blockInfo b)) (previousBlockHash (blockInfo b)),
                          OldBlockMatches (blockNumber (blockInfo (last (blockHistory s))))
                                          (blockHash (blockInfo (last (blockHistory s)))),
                          ForkResolved]
                      (s\<lparr>currentBlockData := Some b\<rparr>)"
            using prems ne Some g Inr True by (subst (asm) resolveForkLoop.simps) auto
          moreover have "P s w (Inr ())
                   (info [Refetching (blockNumber (blockInfo c)), MatchHeader,
                          NewBlockLine (blockNumber (blockInfo b)) (previousBlockHash (blockInfo b)),
                          OldBlockMatches (blockNumber (blockInfo (last (blockHistory s))))
                                          (blockHash (blockInfo (last (blockHistory s)))),
                          ForkResolved]
                      (s\<lparr>currentBlockData := Some b\<rparr>)) w1"
            using g Inr True by (intro match[OF ne Some]) simp_all
          ultimately show ?thesis by simp
        next
          case False
          have run': "resolveForkLoop A
                 (info [Refetching (blockNumber (blockInfo c)), MismatchHeader,
                          NewBlockLine (blockNumber (blockInfo b)) (previousBlockHash (blockInfo b)),
                          OldBlockDiffers (blockNumber (blockInfo (last (blockHistory s))))
                                          (blockHash (blockInfo (last (blockHistory s))))]
                      (s\<lparr>currentBlockData := Some (last (blockHistory s)),
                         blockHistory := butlast (blockHistory s)\<rparr>)) w1 = (r, s', w')"
            using prems ne Some g Inr False
            by (subst (asm) resolveForkLoop.simps) simp
          have "P (info [Refetching (blockNumber (blockInfo c)), MismatchHeader,
                          NewBlockLine (blockNumber (blockInfo b)) (previousBlockHash (blockInfo b)),
                          OldBlockDiffers (blockNumber (blockInfo (last (blockHistory s))))
                                          (blockHash (blockInfo (last (blockHistory s))))]
                      (s\<lparr>currentBlockData := Some (last (blockHistory s)),
                         blockHistory := butlast (blockHistory s)\<rparr>)) w1 r s' w'"
            using ne by (intro less.hyps[OF _ run']) (simp add: info_def)
          with ne Some g Inr False show ?thesis
            using step by blast
        qed
      qed
    qed
  qed
qed

lemma loop_frame:
  assumes "resolveForkLoop A s w = (r, s', w')"
  shows "currentBlockNumber s' = currentBlockNumber s \<and> startAtBlock s' = startAtBlock s \<and>
         headBlockNumber s' = headBlockNumber s \<and> maxHistoryLength s' = maxHistoryLength s \<and>
         isFirstBlock s' = isFirstBlock s \<and> onlyIrreversible s' = onlyIrreversible s"
  using assms by (induction rule: loop_induct) (simp_all add: info_def)

lemma loop_current_kept:
  assumes "resolveForkLoop A s w = (r, s', w')" and "currentBlockData s \<noteq> None"
  shows "currentBlockData s' \<noteq> None \<and> (\<forall>m. r \<noteq> Inl (TypeError m))"
  using assms by (induction rule: loop_induct) (simp_all add: info_def)

lemma loop_silent:
  assumes "resolveForkLoop A s w = (r, s', w')"
  shows "count_list (console s') HistoryExhaustedNotice =
         count_list (console s) HistoryExhaustedNotice"
  using assms by (induction rule: loop_induct) (simp_all add: info_def)

lemma loop_history:
  assumes "resolveForkLoop A s w = (r, s', w')"
  shows "set (blockHistory s') \<subseteq> set (blockHistory s) \<and>
         length (blockHistory s') \<le> length (blockHistory s)"
  using assms
proof (induction rule: loop_induct)
  case (step s w c b w1 r s' w')
  then show ?case
    using in_set_butlastD[of _ "blockHistory s"] by (auto simp: info_def)
qed (simp_all add: info_def)

subsection \<open>Hash-chain consistency of a committed block\<close>

text \<open>
  C2, as the code has it. A block is committed when the hashes agree or when
  \<open>blockHistory\<close> is empty, and the history is still empty on the second call, when a
  current block is already held. After a reorganisation below block 2 the second call
  commits a block whose \<open>previousBlockHash\<close> is not the hash of the current block:
\<close>

theorem nextBlock_commits_unlinked_block:
  "fst (nextBlock (chainAdapter 10) (tracking 10 600 1) (world0\<lparr>shared := 0\<rparr>)) =
     Inr (chainBlock 0 2, False, True)
   \<and> currentBlockData (tracking 10 600 1) = Some (chainBlock 1000 1)
   \<and> previousBlockHash (blockInfo (chainBlock 0 2)) \<noteq> blockHash (blockInfo (chainBlock 1000 1))"
  by code_simp

text \<open>
  C2 (amended): when \<open>nextBlock\<close> returns \<open>isNewBlock = true\<close> and \<open>isRollback = false\<close>,
  and before the call a current block was held and \<open>blockHistory\<close> was not empty, the
  returned block's \<open>previousBlockHash\<close> is the \<open>blockHash\<close> of that current block.
\<close>

theorem nextBlock_hash_chain:
  assumes "nextBlock A s w = (Inr (b, False, True), s', w')"
    and "currentBlockData s = Some c"
    and "blockHistory s \<noteq> []"
  shows "previousBlockHash (blockInfo b) = blockHash (blockInfo c)"
  using assms
  by (auto simp: nextBlock_def refreshHead_def wrapNegative_def processBehind_def finish_def
        commitBlock_def expectedHash_def Let_def
      split: if_splits prod.splits sum.splits option.splits)

theorem nextBlock_hash_chain_witness:
  "nextBlock (chainAdapter 10) (tracking 10 600 2) world0 =
     (Inr (chainBlock 1000 3, False, True), tracking 10 600 3, world0\<lparr>calls := 1\<rparr>)
   \<and> currentBlockData (tracking 10 600 2) = Some (chainBlock 1000 2)
   \<and> blockHistory (tracking 10 600 2) \<noteq> []
   \<and> previousBlockHash (blockInfo (chainBlock 1000 3)) = blockHash (blockInfo (chainBlock 1000 2))"
proof -
  have call: "nextBlock (chainAdapter 10) (tracking 10 600 2) world0 =
      (Inr (chainBlock 1000 3, False, True), tracking 10 600 3, world0\<lparr>calls := 1\<rparr>)"
    by code_simp
  have current: "currentBlockData (tracking 10 600 2) = Some (chainBlock 1000 2)"
    by code_simp
  have history: "blockHistory (tracking 10 600 2) \<noteq> []"
    by code_simp
  from call current history nextBlock_hash_chain [OF call current history] show ?thesis
    by simp
qed

subsection \<open>Fork resolution\<close>

text \<open>
  C6: in an iteration of the rollback loop where the refetched block's
  \<open>previousBlockHash\<close> is the \<open>blockHash\<close> of the newest history entry, the loop ends
  there with the refetched block as \<open>currentBlockData\<close> and the history as it was, that
  entry included; and when the loop has ended with a non-empty history, \<open>resolveFork\<close>
  sets \<open>currentBlockNumber\<close> to the block number of the newest history entry plus one.
\<close>

theorem resolveFork_branch_point:
  "(blockHistory s \<noteq> [] \<and> currentBlockData s = Some c \<and>
    getBlock A (blockNumber (blockInfo c)) w = (Inr b, w1) \<and>
    previousBlockHash (blockInfo b) = blockHash (blockInfo (last (blockHistory s)))
    \<longrightarrow> (\<exists>s'. resolveForkLoop A s w = (Inr (), s', w1) \<and>
              currentBlockData s' = Some b \<and> blockHistory s' = blockHistory s))
   \<and> (currentBlockData s \<noteq> None \<and> resolveForkLoop A s w = (Inr (), s2, w2) \<and>
      blockHistory s2 \<noteq> []
    \<longrightarrow> resolveFork A s w =
          (Inr (),
           s2\<lparr>currentBlockNumber := blockNumber (blockInfo (last (blockHistory s2))) + 1\<rparr>,
           w2))"
proof (intro conjI impI)
  assume "blockHistory s \<noteq> [] \<and> currentBlockData s = Some c \<and>
    getBlock A (blockNumber (blockInfo c)) w = (Inr b, w1) \<and>
    previousBlockHash (blockInfo b) = blockHash (blockInfo (last (blockHistory s)))"
  then show "\<exists>s'. resolveForkLoop A s w = (Inr (), s', w1) \<and>
              currentBlockData s' = Some b \<and> blockHistory s' = blockHistory s"
    by (subst resolveForkLoop.simps) (simp add: info_def)
next
  assume "currentBlockData s \<noteq> None \<and> resolveForkLoop A s w = (Inr (), s2, w2) \<and>
      blockHistory s2 \<noteq> []"
  then show "resolveFork A s w =
          (Inr (),
           s2\<lparr>currentBlockNumber := blockNumber (blockInfo (last (blockHistory s2))) + 1\<rparr>,
           w2)"
    by (simp add: resolveFork_def resumeAfterNewest_def)
qed

theorem resolveFork_branch_point_witness:
  "currentBlockData
     (fst (snd (resolveForkLoop (chainAdapter 10) (tracking 10 2 5) (world0\<lparr>shared := 4\<rparr>)))) =
     Some (chainBlock 4 5)
   \<and> blockHistory
       (fst (snd (resolveForkLoop (chainAdapter 10) (tracking 10 2 5) (world0\<lparr>shared := 4\<rparr>)))) =
     [chainBlock 1000 3, chainBlock 1000 4]
   \<and> currentBlockNumber
       (fst (snd (resolveFork (chainAdapter 10) (tracking 10 2 5) (world0\<lparr>shared := 4\<rparr>)))) = 5"
proof -
  let ?A = "chainAdapter 10"
  let ?s = "tracking 10 2 5"
  let ?w = "world0\<lparr>shared := 4\<rparr>"
  let ?w1 = "world0\<lparr>shared := 4, calls := 1\<rparr>"
  let ?s2 = "fst (snd (resolveForkLoop ?A ?s ?w))"
  have iteration: "blockHistory ?s \<noteq> [] \<and> currentBlockData ?s = Some (chainBlock 1000 5) \<and>
      getBlock ?A (blockNumber (blockInfo (chainBlock 1000 5))) ?w = (Inr (chainBlock 4 5), ?w1) \<and>
      previousBlockHash (blockInfo (chainBlock 4 5)) = blockHash (blockInfo (last (blockHistory ?s)))"
    by code_simp
  have exit: "currentBlockData ?s \<noteq> None \<and> resolveForkLoop ?A ?s ?w = (Inr (), ?s2, ?w1) \<and>
      blockHistory ?s2 \<noteq> []"
    by code_simp
  have newest: "blockHistory ?s = [chainBlock 1000 3, chainBlock 1000 4]"
    by code_simp
  have number: "blockNumber (blockInfo (chainBlock 1000 4)) + 1 = 5"
    by code_simp
  from resolveFork_branch_point [of ?s "chainBlock 1000 5" ?A ?w "chainBlock 4 5" ?w1 ?s2 ?w1]
    iteration exit
  have "currentBlockData ?s2 = Some (chainBlock 4 5) \<and> blockHistory ?s2 = blockHistory ?s \<and>
        resolveFork ?A ?s ?w =
          (Inr (),
           ?s2\<lparr>currentBlockNumber := blockNumber (blockInfo (last (blockHistory ?s2))) + 1\<rparr>,
           ?w1)"
    by auto
  with newest number show ?thesis
    by simp
qed

subsection \<open>History exhaustion\<close>

text \<open>
  C7: when the rollback loop has popped every history entry without a match (it ends
  normally with an empty history), \<open>resolveFork\<close> is one application of
  \<open>historyExhausted\<close> to the reader as the loop left it; with the default handler the
  call fails with the history-exhausted error, and the handler's notice has been written
  exactly once more than before. With \<open>maxHistoryLength = 2\<close>, a reader at block 5 and
  a reorganisation that replaces blocks 3, 4 and 5, \<open>nextBlock\<close> ends this way.
\<close>

theorem resolveFork_history_exhausted:
  assumes "currentBlockData s \<noteq> None"
    and "resolveForkLoop A s w = (Inr (), s1, w1)"
    and "blockHistory s1 = []"
  shows "resolveFork A s w =
           (case historyExhausted A s1 w1 of
              (Inl e, s2, w2) \<Rightarrow> (Inl e, s2, w2)
            | (Inr u, s2, w2) \<Rightarrow> resumeAfterNewest s2 w2)
       \<and> (historyExhausted A = historyExhausted_default \<longrightarrow>
            resolveFork A s w = (Inl HistoryExhaustedError, info [HistoryExhaustedNotice] s1, w1)
          \<and> count_list (console (fst (snd (resolveFork A s w)))) HistoryExhaustedNotice =
              Suc (count_list (console s) HistoryExhaustedNotice))
       \<and> maxHistoryLength (tracking 10 2 5) = 2
       \<and> currentBlockNumber (tracking 10 2 5) = 5
       \<and> fst (nextBlock (chainAdapter 10) (tracking 10 2 5) (world0\<lparr>shared := 2\<rparr>)) =
           Inl HistoryExhaustedError
       \<and> count_list
           (console (fst (snd (nextBlock (chainAdapter 10) (tracking 10 2 5) (world0\<lparr>shared := 2\<rparr>)))))
           HistoryExhaustedNotice = 1"
proof -
  have general: "resolveFork A s w =
           (case historyExhausted A s1 w1 of
              (Inl e, s2, w2) \<Rightarrow> (Inl e, s2, w2)
            | (Inr u, s2, w2) \<Rightarrow> resumeAfterNewest s2 w2)"
    using assms by (auto simp: resolveFork_def)
  have fatal: "historyExhausted A = historyExhausted_default \<longrightarrow>
            resolveFork A s w = (Inl HistoryExhaustedError, info [HistoryExhaustedNotice] s1, w1)
          \<and> count_list (console (fst (snd (resolveFork A s w)))) HistoryExhaustedNotice =
              Suc (count_list (console s) HistoryExhaustedNotice)"
    using general loop_silent [OF assms(2)]
    by (simp add: historyExhausted_default_def info_def)
  have run: "maxHistoryLength (tracking 10 2 5) = 2
       \<and> currentBlockNumber (tracking 10 2 5) = 5
       \<and> fst (nextBlock (chainAdapter 10) (tracking 10 2 5) (world0\<lparr>shared := 2\<rparr>)) =
           Inl HistoryExhaustedError
       \<and> count_list
           (console (fst (snd (nextBlock (chainAdapter 10) (tracking 10 2 5) (world0\<lparr>shared := 2\<rparr>)))))
           HistoryExhaustedNotice = 1"
    by code_simp
  from general fatal run show ?thesis
    by blast
qed

theorem resolveFork_history_exhausted_witness:
  "resolveFork (chainAdapter 10) (tracking 10 2 5) (world0\<lparr>shared := 2\<rparr>) =
     (Inl HistoryExhaustedError,
      info [HistoryExhaustedNotice]
        (fst (snd (resolveForkLoop (chainAdapter 10) (tracking 10 2 5) (world0\<lparr>shared := 2\<rparr>)))),
      world0\<lparr>shared := 2, calls := 2\<rparr>)
   \<and> count_list
       (console (fst (snd (resolveFork (chainAdapter 10) (tracking 10 2 5) (world0\<lparr>shared := 2\<rparr>)))))
       HistoryExhaustedNotice = 1"
proof -
  let ?A = "chainAdapter 10"
  let ?s = "tracking 10 2 5"
  let ?w = "world0\<lparr>shared := 2\<rparr>"
  let ?w1 = "world0\<lparr>shared := 2, calls := 2\<rparr>"
  let ?s1 = "fst (snd (resolveForkLoop ?A ?s ?w))"
  have current: "currentBlockData ?s \<noteq> None"
    by code_simp
  have loop: "resolveForkLoop ?A ?s ?w = (Inr (), ?s1, ?w1)"
    by code_simp
  have popped: "blockHistory ?s1 = []"
    by code_simp
  have handler: "historyExhausted ?A = historyExhausted_default"
    by (simp add: chainAdapter_def)
  have before: "count_list (console ?s) HistoryExhaustedNotice = 0"
    by code_simp
  from resolveFork_history_exhausted [OF current loop popped] handler
  have "resolveFork ?A ?s ?w = (Inl HistoryExhaustedError, info [HistoryExhaustedNotice] ?s1, ?w1)
      \<and> count_list (console (fst (snd (resolveFork ?A ?s ?w)))) HistoryExhaustedNotice =
          Suc (count_list (console ?s) HistoryExhaustedNotice)"
    by blast
  with before show ?thesis
    by auto
qed

text \<open>
  C10: with the default \<open>historyExhausted\<close>, \<open>resolveFork\<close> never fails with the
  TypeError of reading \<open>blockInfo\<close> on a missing newest entry (nor with any other
  TypeError): whenever the loop leaves the history empty the handler throws first. With
  an override that returns normally the read is reached, and it fails.
\<close>

theorem resolveFork_default_never_reads_empty_history:
  "fst (resolveFork (A\<lparr>historyExhausted := historyExhausted_default\<rparr>) s w) \<noteq> Inl (TypeError m)
   \<and> fst (resolveFork (lenientAdapter 10) (tracking 10 2 5) (world0\<lparr>shared := 2\<rparr>)) =
       Inl (TypeError ''blockInfo of undefined'')"
proof
  let ?A = "A\<lparr>historyExhausted := historyExhausted_default\<rparr>"
  show "fst (resolveFork ?A s w) \<noteq> Inl (TypeError m)"
  proof (cases "currentBlockData s = None")
    case True
    then show ?thesis
      by (simp add: resolveFork_def)
  next
    case False
    obtain r s1 w1 where run: "resolveForkLoop ?A s w = (r, s1, w1)"
      by (cases "resolveForkLoop ?A s w") auto
    from loop_current_kept [OF run False] have "r \<noteq> Inl (TypeError m)"
      by simp
    with run False show ?thesis
      by (cases r) (auto simp: resolveFork_def resumeAfterNewest_def historyExhausted_default_def)
  qed
next
  show "fst (resolveFork (lenientAdapter 10) (tracking 10 2 5) (world0\<lparr>shared := 2\<rparr>)) =
       Inl (TypeError ''blockInfo of undefined'')"
    by code_simp
qed

subsection \<open>Caught up with the head\<close>

lemma nextBlock_caught_up:
  assumes "\<forall>v. fst (getHeadBlockNumber A v) = Inr (currentBlockNumber s)"
    and "headBlockNumber s = currentBlockNumber s \<or> headBlockNumber s = 0"
    and "0 \<le> currentBlockNumber s"
    and "currentBlockData s = Some b"
  shows "fst (nextBlock A s w) = Inr (b, False, False) \<and>
         fst (snd (nextBlock A s w)) =
           s\<lparr>headBlockNumber := currentBlockNumber s,
             isFirstBlock := (currentBlockNumber s = startAtBlock s)\<rparr>"
proof -
  obtain w1 where "getHeadBlockNumber A w = (Inr (currentBlockNumber s), w1)"
    using assms(1) by (metis prod.collapse)
  with assms(2-) show ?thesis
    by (auto simp: nextBlock_def refreshHead_def wrapNegative_def processBehind_def finish_def)
qed

text \<open>
  C9: let the reader hold a current block \<open>b\<close> at a block number that is not negative,
  let the adapter report that number as the head at every call, and let the reader's
  \<open>headBlockNumber\<close> be that number (or 0, not yet known). Then after any number \<open>n\<close> of
  calls the next call returns \<open>b\<close> again with both flags false, and
  \<open>currentBlockNumber\<close>, \<open>currentBlockData\<close> and \<open>blockHistory\<close> are what they were at
  the start.
\<close>

theorem nextBlock_idempotent_at_head:
  assumes "\<forall>v. fst (getHeadBlockNumber A v) = Inr (currentBlockNumber s)"
    and "headBlockNumber s = currentBlockNumber s \<or> headBlockNumber s = 0"
    and "0 \<le> currentBlockNumber s"
    and "currentBlockData s = Some b"
  shows "fst (nextBlock A (fst (nextBlocks A n s w)) (snd (nextBlocks A n s w))) =
           Inr (b, False, False)
       \<and> currentBlockNumber (fst (nextBlocks A (Suc n) s w)) = currentBlockNumber s
       \<and> currentBlockData (fst (nextBlocks A (Suc n) s w)) = currentBlockData s
       \<and> blockHistory (fst (nextBlocks A (Suc n) s w)) = blockHistory s"
  using assms
proof (induction n arbitrary: s w)
  case 0
  from nextBlock_caught_up [OF 0, of w] show ?case
    by simp
next
  case (Suc n)
  let ?s1 = "fst (snd (nextBlock A s w))"
  let ?w1 = "snd (snd (nextBlock A s w))"
  from nextBlock_caught_up [OF Suc.prems, of w]
  have s1: "?s1 = s\<lparr>headBlockNumber := currentBlockNumber s,
                    isFirstBlock := (currentBlockNumber s = startAtBlock s)\<rparr>"
    by simp
  have "fst (nextBlock A (fst (nextBlocks A n ?s1 ?w1)) (snd (nextBlocks A n ?s1 ?w1))) =
           Inr (b, False, False)
       \<and> currentBlockNumber (fst (nextBlocks A (Suc n) ?s1 ?w1)) = currentBlockNumber ?s1
       \<and> currentBlockData (fst (nextBlocks A (Suc n) ?s1 ?w1)) = currentBlockData ?s1
       \<and> blockHistory (fst (nextBlocks A (Suc n) ?s1 ?w1)) = blockHistory ?s1"
    using Suc.prems by (intro Suc.IH) (simp_all add: s1)
  then show ?case
    by (simp add: s1)
qed

theorem nextBlock_idempotent_at_head_witness:
  "fst (nextBlock (chainAdapter 3)
          (fst (nextBlocks (chainAdapter 3) 2 (tracking 3 600 3) world0))
          (snd (nextBlocks (chainAdapter 3) 2 (tracking 3 600 3) world0))) =
     Inr (chainBlock 1000 3, False, False)
   \<and> currentBlockNumber (fst (nextBlocks (chainAdapter 3) (Suc 2) (tracking 3 600 3) world0)) = 3
   \<and> currentBlockData (fst (nextBlocks (chainAdapter 3) (Suc 2) (tracking 3 600 3) world0)) =
       Some (chainBlock 1000 3)
   \<and> blockHistory (fst (nextBlocks (chainAdapter 3) (Suc 2) (tracking 3 600 3) world0)) =
       [chainBlock 1000 1, chainBlock 1000 2]"
proof -
  have number: "currentBlockNumber (tracking 3 600 3) = 3"
    by code_simp
  have head: "\<forall>v. fst (getHeadBlockNumber (chainAdapter 3) v) = Inr (currentBlockNumber (tracking 3 600 3))"
    by (simp add: number chainAdapter_def)
  have known: "headBlockNumber (tracking 3 600 3) = currentBlockNumber (tracking 3 600 3)
      \<or> headBlockNumber (tracking 3 600 3) = 0"
    by code_simp
  have positive: "0 \<le> currentBlockNumber (tracking 3 600 3)"
    by (simp add: number)
  have current: "currentBlockData (tracking 3 600 3) = Some (chainBlock 1000 3)"
    by code_simp
  have history: "blockHistory (tracking 3 600 3) = [chainBlock 1000 1, chainBlock 1000 2]"
    by code_simp
  from nextBlock_idempotent_at_head [OF head known positive current, of 2 world0]
    number current history
  show ?thesis
    by simp
qed

subsection \<open>The bound on the history\<close>

lemma nextBlock_commit:
  assumes "nextBlock A s w = (Inr (b, False, True), s', w')"
  shows "blockHistory s' = spliceFront (int (length (pushCurrent s)) - maxHistoryLength s) (pushCurrent s)
       \<and> currentBlockData s' = Some b \<and> maxHistoryLength s' = maxHistoryLength s"
  using assms
  by (auto simp: nextBlock_def refreshHead_def wrapNegative_def processBehind_def finish_def
        commitBlock_def pushCurrent_def Let_def
      split: if_splits prod.splits sum.splits option.splits)

lemma spliceFront_drop:
  assumes "0 \<le> m"
  shows "spliceFront (int (length xs) - m) xs = drop (length xs - nat m) xs"
  using assms by (auto simp: spliceFront_def min_def max_def nat_diff_distrib')

lemma spliceFront_bound:
  assumes "0 \<le> m"
  shows "int (length (spliceFront (int (length xs) - m) xs)) \<le> m"
  using assms by (auto simp: spliceFront_def min_def max_def)

lemma commits_bound:
  assumes "0 \<le> maxHistoryLength s" and "int (length (blockHistory s)) \<le> maxHistoryLength s"
    and "commits A n s w = Some (s', w')"
  shows "int (length (blockHistory s')) \<le> maxHistoryLength s' \<and> maxHistoryLength s' = maxHistoryLength s"
  using assms
proof (induction n arbitrary: s w)
  case 0
  then show ?case by simp
next
  case (Suc n)
  from Suc.prems(3) obtain b s1 w1 where
    step: "nextBlock A s w = (Inr (b, False, True), s1, w1)" and rest: "commits A n s1 w1 = Some (s', w')"
    by (auto split: prod.splits sum.splits if_splits)
  from nextBlock_commit[OF step]
  have hist: "blockHistory s1 =
      spliceFront (int (length (pushCurrent s)) - maxHistoryLength s) (pushCurrent s)"
    and same: "maxHistoryLength s1 = maxHistoryLength s"
    by simp_all
  have "int (length (blockHistory s1)) \<le> maxHistoryLength s"
    unfolding hist by (rule spliceFront_bound[OF Suc.prems(1)])
  with same Suc.prems(1) Suc.IH[OF _ _ rest] show ?case by simp
qed

text \<open>
  C8, for a bound that is not negative: after any number of calls that each commit a
  block, starting from the constructed reader, \<open>blockHistory\<close> is no longer than
  \<open>maxHistoryLength\<close>; and a further commit leaves as history the newest entries of the
  old history with the old current block pushed on (what is dropped is dropped from the
  front, the oldest end), while the block just committed is \<open>currentBlockData\<close>, which
  the trimming does not touch.
\<close>

theorem nextBlock_history_bound:
  assumes "0 \<le> maxLen"
    and "commits A n (AbstractActionReader start irreversible maxLen) w = Some (s, w')"
  shows "int (length (blockHistory s)) \<le> maxLen
       \<and> (\<forall>b s2 w2. nextBlock A s w' = (Inr (b, False, True), s2, w2) \<longrightarrow>
             blockHistory s2 = drop (length (pushCurrent s) - nat maxLen) (pushCurrent s)
           \<and> currentBlockData s2 = Some b)"
proof -
  from commits_bound [OF _ _ assms(2)] assms(1)
  have bound: "int (length (blockHistory s)) \<le> maxHistoryLength s"
    and len: "maxHistoryLength s = maxLen"
    by (simp_all add: AbstractActionReader_def)
  have "blockHistory s2 = drop (length (pushCurrent s) - nat maxLen) (pushCurrent s)
           \<and> currentBlockData s2 = Some b"
    if "nextBlock A s w' = (Inr (b, False, True), s2, w2)" for b s2 w2
    using nextBlock_commit [OF that] spliceFront_drop [OF assms(1), of "pushCurrent s"] len
    by simp
  with bound len show ?thesis
    by blast
qed

theorem nextBlock_history_bound_witness:
  "int (length (blockHistory (tracking 10 2 4))) \<le> 2
   \<and> blockHistory (tracking 10 2 5) = [chainBlock 1000 3, chainBlock 1000 4]
   \<and> currentBlockData (tracking 10 2 5) = Some (chainBlock 1000 5)"
proof -
  have bound: "(0::int) \<le> 2"
    by simp
  have run: "commits (chainAdapter 10) 4 (AbstractActionReader 1 False 2) world0 =
      Some (tracking 10 2 4, world0\<lparr>calls := 5\<rparr>)"
    by code_simp
  have fifth: "nextBlock (chainAdapter 10) (tracking 10 2 4) (world0\<lparr>calls := 5\<rparr>) =
      (Inr (chainBlock 1000 5, False, True), tracking 10 2 5, world0\<lparr>calls := 6\<rparr>)"
    by code_simp
  have kept: "drop (length (pushCurrent (tracking 10 2 4)) - nat 2) (pushCurrent (tracking 10 2 4)) =
      [chainBlock 1000 3, chainBlock 1000 4]"
    by code_simp
  from nextBlock_history_bound [OF bound run] fifth kept show ?thesis
    by auto
qed

subsection \<open>Tailing from a negative startAtBlock\<close>

lemma loop_lower_bound:
  assumes "resolveForkLoop A s w = (r, s', w')"
    and "\<forall>n v b v'. getBlock A n v = (Inr b, v') \<longrightarrow> blockNumber (blockInfo b) = n"
    and "list_all (\<lambda>x. L \<le> blockNumber (blockInfo x)) (blockHistory s)"
    and "case currentBlockData s of None \<Rightarrow> True | Some c \<Rightarrow> L \<le> blockNumber (blockInfo c)"
  shows "list_all (\<lambda>x. L \<le> blockNumber (blockInfo x)) (blockHistory s')
       \<and> (case currentBlockData s' of None \<Rightarrow> True | Some c \<Rightarrow> L \<le> blockNumber (blockInfo c))"
  using assms
proof (induction rule: loop_induct)
  case (match s w c b w1)
  then have "blockNumber (blockInfo b) = blockNumber (blockInfo c)" by blast
  with match show ?case by (simp add: info_def)
next
  case (step s w c b w1 r s' w')
  have "list_all (\<lambda>x. L \<le> blockNumber (blockInfo x)) (butlast (blockHistory s))"
    using step.prems(2) by (auto simp: list_all_iff dest: in_set_butlastD)
  moreover have "L \<le> blockNumber (blockInfo (last (blockHistory s)))"
    using step.prems(2) step.hyps(1) by (simp add: list_all_iff)
  ultimately show ?case
    using step.IH step.prems(1) by (simp add: info_def)
qed (simp_all add: info_def)

lemma resolveFork_pastStart:
  assumes run: "resolveFork A s w = (r, s', w')"
    and wb: "\<forall>n v b v'. getBlock A n v = (Inr b, v') \<longrightarrow> blockNumber (blockInfo b) = n"
    and dflt: "historyExhausted A = historyExhausted_default"
    and hist: "list_all (\<lambda>x. L \<le> blockNumber (blockInfo x)) (blockHistory s)"
    and cur: "case currentBlockData s of None \<Rightarrow> True | Some c \<Rightarrow> L \<le> blockNumber (blockInfo c)"
  shows "list_all (\<lambda>x. L \<le> blockNumber (blockInfo x)) (blockHistory s')
       \<and> (case currentBlockData s' of None \<Rightarrow> True | Some c \<Rightarrow> L \<le> blockNumber (blockInfo c))
       \<and> startAtBlock s' = startAtBlock s
       \<and> (case r of Inl e \<Rightarrow> currentBlockNumber s' = currentBlockNumber s
                   | Inr u \<Rightarrow> L < currentBlockNumber s')"
proof (cases "currentBlockData s = None")
  case True
  with run hist cur show ?thesis by (auto simp: resolveFork_def)
next
  case False
  obtain r1 s1 w1 where loop: "resolveForkLoop A s w = (r1, s1, w1)"
    by (cases "resolveForkLoop A s w") auto
  note b = loop_lower_bound[OF loop wb hist cur]
  note f = loop_frame[OF loop]
  show ?thesis
  proof (cases r1)
    case (Inl e)
    with run loop False b f show ?thesis by (auto simp: resolveFork_def)
  next
    case (Inr u)
    show ?thesis
    proof (cases "blockHistory s1 = []")
      case True
      with run loop False b f Inr dflt show ?thesis
        by (auto simp: resolveFork_def historyExhausted_default_def info_def)
    next
      case ne: False
      then have "L \<le> blockNumber (blockInfo (last (blockHistory s1)))"
        using b by (simp add: list_all_iff)
      with run loop False b f Inr ne show ?thesis
        by (auto simp: resolveFork_def resumeAfterNewest_def)
    qed
  qed
qed


lemma list_all_spliceFront:
  "list_all P xs \<Longrightarrow> list_all P (spliceFront k xs)"
  by (auto simp: spliceFront_def list_all_iff dest: in_set_dropD)

lemma commitBlock_pastStart:
  assumes "pastStart L s" and "blockNumber (blockInfo b) = currentBlockNumber s + 1"
  shows "pastStart L (commitBlock b s) \<and> L < currentBlockNumber (commitBlock b s)"
proof -
  have "list_all (\<lambda>x. L \<le> blockNumber (blockInfo x)) (pushCurrent s)"
    using assms(1) by (auto simp: pastStart_def pushCurrent_def split: option.splits)
  from list_all_spliceFront[OF this] assms show ?thesis
    by (auto simp: pastStart_def commitBlock_def Let_def)
qed

lemma processBehind_pastStart:
  assumes inv: "pastStart L s"
    and wb: "\<forall>n v b v'. getBlock A n v = (Inr b, v') \<longrightarrow> blockNumber (blockInfo b) = n"
    and dflt: "historyExhausted A = historyExhausted_default"
    and run: "processBehind A s w = (r, s', w')"
  shows "pastStart L s' \<and> (case r of Inl e \<Rightarrow> True | Inr flags \<Rightarrow> L < currentBlockNumber s')"
proof (cases "currentBlockNumber s < headBlockNumber s")
  case False
  with run inv show ?thesis
    by (auto simp: processBehind_def pastStart_def)
next
  case behind: True
  obtain x w1 where g: "getBlock A (currentBlockNumber s + 1) w = (x, w1)"
    by (cases "getBlock A (currentBlockNumber s + 1) w")
  show ?thesis
  proof (cases x)
    case (Inl e)
    with run inv behind g show ?thesis
      by (auto simp: processBehind_def)
  next
    case (Inr u)
    with g wb have num: "blockNumber (blockInfo u) = currentBlockNumber s + 1"
      by blast
    show ?thesis
    proof (cases "expectedHash s = previousBlockHash (blockInfo u) \<or> blockHistory s = []")
      case True
      with run behind g Inr commitBlock_pastStart[OF inv num] show ?thesis
        by (auto simp: processBehind_def)
    next
      case fork: False
      let ?s0 = "info [ForkDetected, MismatchHeader,
                       NewBlockLine (blockNumber (blockInfo u)) (previousBlockHash (blockInfo u)),
                       OldBlockDiffers (currentBlockNumber s) (expectedHash s)] s"
      obtain r1 s1 w2 where rf: "resolveFork A ?s0 w1 = (r1, s1, w2)"
        by (cases "resolveFork A ?s0 w1") auto
      from fork inv have past: "L < currentBlockNumber s"
        by (auto simp: pastStart_def)
      have h0: "list_all (\<lambda>x. L \<le> blockNumber (blockInfo x)) (blockHistory ?s0)"
        and c0: "case currentBlockData ?s0 of None \<Rightarrow> True | Some c \<Rightarrow> L \<le> blockNumber (blockInfo c)"
        using inv by (simp_all add: pastStart_def info_def)
      note res = resolveFork_pastStart[OF rf wb dflt h0 c0]
      show ?thesis
      proof (cases r1)
        case (Inl e)
        with run behind g Inr fork rf res inv past show ?thesis
          by (auto simp: processBehind_def pastStart_def info_def)
      next
        case ok: (Inr u1)
        obtain y w3 where gh: "getHeadBlockNumber A w2 = (y, w3)"
          by (cases "getHeadBlockNumber A w2")
        from run behind g Inr fork rf ok gh res inv show ?thesis
          by (cases y) (auto simp: processBehind_def pastStart_def info_def)
      qed
    qed
  qed
qed

lemma nextBlock_pastStart:
  assumes inv: "pastStart L s"
    and wb: "\<forall>n v b v'. getBlock A n v = (Inr b, v') \<longrightarrow> blockNumber (blockInfo b) = n"
    and dflt: "historyExhausted A = historyExhausted_default"
    and run: "nextBlock A s w = (r, s', w')"
  shows "pastStart L s' \<and> (case r of Inl e \<Rightarrow> True | Inr x \<Rightarrow> \<not> isFirstBlock s')"
proof -
  obtain r0 s0 w0 where rh: "refreshHead A s w = (r0, s0, w0)"
    by (cases "refreshHead A s w") auto
  show ?thesis
  proof (cases r0)
    case (Inl e)
    with rh run inv show ?thesis
      by (auto simp: nextBlock_def refreshHead_def split: if_splits prod.splits sum.splits)
  next
    case (Inr u)
    with rh inv have inv0: "pastStart L s0"
      by (auto simp: refreshHead_def pastStart_def split: if_splits prod.splits sum.splits)
    then have wrap: "wrapNegative s0 = s0"
      by (auto simp: wrapNegative_def pastStart_def)
    obtain r2 s2 w2 where pb: "processBehind A s0 w0 = (r2, s2, w2)"
      by (cases "processBehind A s0 w0") auto
    note step = processBehind_pastStart[OF inv0 wb dflt pb]
    show ?thesis
    proof (cases r2)
      case (Inl e)
      with run rh Inr wrap pb step show ?thesis
        by (auto simp: nextBlock_def)
    next
      case ok: (Inr flags)
      with step have past: "L < currentBlockNumber s2" and inv2: "pastStart L s2"
        by simp_all
      from run rh Inr wrap pb ok have fin: "finish flags s2 w2 = (r, s', w')"
        by (simp add: nextBlock_def)
      from fin past inv2 show ?thesis
        by (auto simp: finish_def pastStart_def Let_def split: option.splits)
    qed
  qed
qed

lemma nextBlocks_pastStart:
  assumes "pastStart L s"
    and wb: "\<forall>n v b v'. getBlock A n v = (Inr b, v') \<longrightarrow> blockNumber (blockInfo b) = n"
    and dflt: "historyExhausted A = historyExhausted_default"
  shows "pastStart L (fst (nextBlocks A n s w))"
  using assms(1)
proof (induction n arbitrary: s w)
  case 0
  then show ?case by simp
next
  case (Suc n)
  obtain r s1 w1 where run: "nextBlock A s w = (r, s1, w1)"
    by (cases "nextBlock A s w") auto
  from nextBlock_pastStart[OF Suc.prems wb dflt run] have "pastStart L s1"
    by simp
  from Suc.IH[OF this, of w1] run show ?case
    by simp
qed

text \<open>
  C1, as the code has it. The constructor sets \<open>currentBlockNumber\<close> to
  \<open>startAtBlock - 1 = -6\<close>; the first call turns it into \<open>100 + (-6) = 94\<close> and fetches
  block 95, which is head + \<open>startAtBlock\<close> as the constructor's comment says, not 96:
\<close>

theorem nextBlock_negative_start_yields_95:
  "fst (nextBlock (chainAdapter 100) (AbstractActionReader (- 5) False 600) world0) =
     Inr (chainBlock 1000 95, False, True)
   \<and> blockNumber (blockInfo (chainBlock 1000 95)) = 95
   \<and> blockNumber (blockInfo (chainBlock 1000 95)) \<noteq> 96"
  by code_simp

text \<open>
  C1 (amended): let the reader be constructed with \<open>startAtBlock = -5\<close>, let the adapter
  report head 100 at the first call and return a block for number 95, let it return for
  every number a block of that number, and let \<open>historyExhausted\<close> be the default. Then
  the first call yields that block, of number 95, with \<open>isFirstBlock\<close> true after it, and
  every later call that returns a block leaves \<open>isFirstBlock\<close> false.
\<close>

theorem nextBlock_negative_start:
  assumes head: "getHeadBlockNumber A w = (Inr 100, w1)"
    and block: "getBlock A 95 w1 = (Inr b, w2)"
    and wb: "\<forall>n v b v'. getBlock A n v = (Inr b, v') \<longrightarrow> blockNumber (blockInfo b) = n"
    and dflt: "historyExhausted A = historyExhausted_default"
  shows "fst (nextBlock A (AbstractActionReader (- 5) irreversible maxLen) w) = Inr (b, False, True)
       \<and> blockNumber (blockInfo b) = 95
       \<and> isFirstBlock (fst (snd (nextBlock A (AbstractActionReader (- 5) irreversible maxLen) w)))
       \<and> (\<forall>n x s' w'.
            nextBlock A
              (fst (nextBlocks A (Suc n) (AbstractActionReader (- 5) irreversible maxLen) w))
              (snd (nextBlocks A (Suc n) (AbstractActionReader (- 5) irreversible maxLen) w)) =
              (Inr x, s', w')
            \<longrightarrow> \<not> isFirstBlock s')"
proof -
  let ?s = "AbstractActionReader (- 5) irreversible maxLen"
  from block wb have num: "blockNumber (blockInfo b) = 95"
    by blast
  have first: "nextBlock A ?s w =
      (Inr (b, False, True),
       ?s\<lparr>headBlockNumber := 100, currentBlockNumber := 95, startAtBlock := 95,
           currentBlockData := Some b, isFirstBlock := True\<rparr>, w2)"
    using head block num
    by (simp add: nextBlock_def refreshHead_def wrapNegative_def processBehind_def finish_def
          commitBlock_def pushCurrent_def spliceFront_def AbstractActionReader_def)
  let ?s1 = "fst (snd (nextBlock A ?s w))"
  have inv: "pastStart 95 ?s1"
    using num unfolding first by (simp add: pastStart_def AbstractActionReader_def)
  have later: "\<not> isFirstBlock s'"
    if "nextBlock A (fst (nextBlocks A (Suc n) ?s w)) (snd (nextBlocks A (Suc n) ?s w)) =
          (Inr x, s', w')"
    for n x s' w'
  proof -
    have "pastStart 95 (fst (nextBlocks A n ?s1 (snd (snd (nextBlock A ?s w)))))"
      by (rule nextBlocks_pastStart [OF inv wb dflt])
    then have "pastStart 95 (fst (nextBlocks A (Suc n) ?s w))"
      by simp
    from nextBlock_pastStart [OF this wb dflt that] show ?thesis
      by simp
  qed
  from first num later show ?thesis
    by auto
qed

theorem nextBlock_negative_start_witness:
  "fst (nextBlock (chainAdapter 100) (AbstractActionReader (- 5) False 600) world0) =
     Inr (chainBlock 1000 95, False, True)
   \<and> isFirstBlock (fst (snd (nextBlock (chainAdapter 100) (AbstractActionReader (- 5) False 600) world0)))
   \<and> fst (nextBlock (chainAdapter 100)
            (fst (nextBlocks (chainAdapter 100) (Suc 1) (AbstractActionReader (- 5) False 600) world0))
            (snd (nextBlocks (chainAdapter 100) (Suc 1) (AbstractActionReader (- 5) False 600) world0))) =
       Inr (chainBlock 1000 97, False, True)
   \<and> \<not> isFirstBlock
        (fst (snd (nextBlock (chainAdapter 100)
            (fst (nextBlocks (chainAdapter 100) (Suc 1) (AbstractActionReader (- 5) False 600) world0))
            (snd (nextBlocks (chainAdapter 100) (Suc 1) (AbstractActionReader (- 5) False 600) world0)))))"
proof -
  let ?A = "chainAdapter 100"
  let ?s = "AbstractActionReader (- 5) False 600"
  let ?third = "nextBlock ?A (fst (nextBlocks ?A (Suc 1) ?s world0)) (snd (nextBlocks ?A (Suc 1) ?s world0))"
  have head: "getHeadBlockNumber ?A world0 = (Inr 100, world0\<lparr>calls := 1\<rparr>)"
    by code_simp
  have block: "getBlock ?A 95 (world0\<lparr>calls := 1\<rparr>) = (Inr (chainBlock 1000 95), world0\<lparr>calls := 2\<rparr>)"
    by code_simp
  have wb: "\<forall>n v b v'. getBlock ?A n v = (Inr b, v') \<longrightarrow> blockNumber (blockInfo b) = n"
    by (auto simp: chainAdapter_def chainBlock_def)
  have dflt: "historyExhausted ?A = historyExhausted_default"
    by (simp add: chainAdapter_def)
  have third: "?third = (Inr (chainBlock 1000 97, False, True), fst (snd ?third), snd (snd ?third))"
    by code_simp
  from nextBlock_negative_start [OF head block wb dflt, of False 600] third show ?thesis
    by (metis fst_conv)
qed

subsection \<open>seekToBlock and the history\<close>

text \<open>
  C3 on the code. The reader has committed blocks 1 to 6 (history 1 to 5, current
  block 6). \<open>seekToBlock(3)\<close> finds block 3 in the history and completes, but
  \<open>splice(toDelete)\<close> keeps the oldest entry only, so block 1 becomes
  \<open>currentBlockData\<close> while \<open>currentBlockNumber\<close> is 2. \<open>seekToBlock(9)\<close>, a block that
  is not in the history, adopts block 4 from the history with \<open>currentBlockNumber\<close> 8.
\<close>

theorem seekToBlock_current_block_mismatch:
  "blockHistory (tracking 10 600 6) =
     [chainBlock 1000 1, chainBlock 1000 2, chainBlock 1000 3, chainBlock 1000 4, chainBlock 1000 5]
   \<and> currentBlockData (tracking 10 600 6) = Some (chainBlock 1000 6)
   \<and> fst (seekToBlock (chainAdapter 10) 3 (tracking 10 600 6) world0) = Inr ()
   \<and> currentBlockData (fst (snd (seekToBlock (chainAdapter 10) 3 (tracking 10 600 6) world0))) =
       Some (chainBlock 1000 1)
   \<and> currentBlockNumber (fst (snd (seekToBlock (chainAdapter 10) 3 (tracking 10 600 6) world0))) = 2
   \<and> fst (seekToBlock (chainAdapter 10) 9 (tracking 10 600 6) world0) = Inr ()
   \<and> currentBlockData (fst (snd (seekToBlock (chainAdapter 10) 9 (tracking 10 600 6) world0))) =
       Some (chainBlock 1000 4)
   \<and> currentBlockNumber (fst (snd (seekToBlock (chainAdapter 10) 9 (tracking 10 600 6) world0))) = 8"
  by code_simp

text \<open>
  C4 on the code, for the same reader. \<open>seekToBlock(3)\<close>: block 3 is in the history, yet
  block 1 is adopted and the history is emptied, older entries included.
  \<open>seekToBlock(5)\<close>: block 5 is the newest history entry, yet the history is left as it
  was and \<open>getBlock\<close> is called (one adapter call), for block 4. \<open>seekToBlock(9)\<close>: block
  9 is not in the history, yet nothing is fetched (no adapter call).
\<close>

theorem seekToBlock_history_reuse_broken:
  "seekToBlock (chainAdapter 10) 3 (tracking 10 600 6) world0 =
     (Inr (),
      (tracking 10 600 6)\<lparr>headBlockNumber := 0, currentBlockNumber := 2,
                           currentBlockData := Some (chainBlock 1000 1), blockHistory := []\<rparr>,
      world0)
   \<and> seekToBlock (chainAdapter 10) 5 (tracking 10 600 6) world0 =
     (Inr (),
      (tracking 10 600 6)\<lparr>headBlockNumber := 0, currentBlockNumber := 4,
                           currentBlockData := Some (chainBlock 1000 4)\<rparr>,
      world0\<lparr>calls := 1\<rparr>)
   \<and> seekToBlock (chainAdapter 10) 9 (tracking 10 600 6) world0 =
     (Inr (),
      (tracking 10 600 6)\<lparr>headBlockNumber := 0, currentBlockNumber := 8,
                           currentBlockData := Some (chainBlock 1000 4),
                           blockHistory := [chainBlock 1000 1, chainBlock 1000 2, chainBlock 1000 3]\<rparr>,
      world0)"
  by code_simp

end
